theory Spec2Isabelle
  imports Main "HOL-Library.AList"
begin

section \<open>The credit ledger: \<open>CreditManager\<close> of \<open>src/core/credits\<close>\<close>

text \<open>
  The ledger keeps, for every configured engine, how many credits of its monthly quota
  are used. The TypeScript class holds a \<open>Map\<close> from engine ids to their configuration,
  a plain object from engine ids to usage records, and a persistence collaborator.

  Modelling decisions, all of them visible in the definitions below:
  \<^item> credits are JavaScript numbers that the configuration declares as whole credits;
    they are modelled as \<open>int\<close> (unbounded, possibly negative, as nothing in the class
    checks a sign);
  \<^item> the \<open>Map\<close> of engines is an association list with distinct keys in insertion order,
    built by the constructor with \<open>AList.update\<close> (a later configuration with the same id
    replaces the earlier one and keeps its position, as \<open>Map.set\<close> does);
    \<open>Map.get\<close> is \<open>map_of\<close>;
  \<^item> the usage object is a partial map from ids to records (engine ids are taken not to
    be names of \<open>Object.prototype\<close>);
  \<^item> \<open>new Date().toISOString()\<close> is a parameter \<open>now\<close>, the ISO string of the clock
    reading, and \<open>slice(0, 7)\<close> is \<open>take 7\<close>;
  \<^item> a thrown \<open>Error\<close> is an \<open>Inl\<close> result. A method that mutates the ledger returns
    the new ledger in its \<open>Inr\<close> result.
\<close>

type_synonym EngineId = string

text \<open>The fields of \<open>EngineConfig\<close> that the ledger reads.\<close>

record EngineConfig =
  id_cfg :: EngineId
  monthlyQuota :: int
  creditCostPerSearch :: int

record UsageRecord =
  used :: int
  lastReset :: string

type_synonym CreditState = "EngineId \<rightharpoonup> UsageRecord"

record CreditSnapshot =
  engineId :: EngineId
  quota :: int
  used_snap :: int
  remaining :: int
  isExhausted :: bool

datatype error =
    UnknownEngine EngineId
  | NoCreditRecord EngineId
  | PersistenceFailure

subsection \<open>The persistence collaborator\<close>

text \<open>
  Modelled from the spec: the implementations of the interface \<open>CreditStateProvider\<close>
  are missing from the source files; only the interface is among them. The collaborator
  is a store that holds one complete snapshot, as a value (a file, not a shared object),
  together with the log of every snapshot written through \<open>saveState\<close>. Both operations
  may throw (the interface says so); a store that is not \<open>online\<close> throws on every call.
\<close>

record CreditStateProvider =
  stored :: CreditState
  writes :: "CreditState list"
  online :: bool

text \<open>
  Modelled from the spec: \<open>loadState\<close> of the missing implementation returns the
  stored snapshot, or throws.
\<close>

definition loadState :: "CreditStateProvider \<Rightarrow> error + CreditState" where
  "loadState p = (if online p then Inr (stored p) else Inl PersistenceFailure)"

text \<open>
  Modelled from the spec: \<open>saveState\<close> of the missing implementation replaces the
  stored snapshot by the one given and logs the write, or throws.
\<close>

definition saveState :: "CreditState \<Rightarrow> CreditStateProvider \<Rightarrow> error + CreditStateProvider" where
  "saveState st p =
     (if online p then Inr (p\<lparr>stored := st, writes := writes p @ [st]\<rparr>)
      else Inl PersistenceFailure)"

subsection \<open>The class\<close>

record CreditManager =
  engines :: "(EngineId \<times> EngineConfig) list"
  state :: CreditState
  stateProvider :: CreditStateProvider

text \<open>The constructor: \<open>new Map(engines.map((e) => [e.id, e]))\<close> and an empty state.\<close>

definition CreditManager_new :: "EngineConfig list \<Rightarrow> CreditStateProvider \<Rightarrow> CreditManager" where
  "CreditManager_new es p =
     \<lparr>engines = foldl (\<lambda>m e. AList.update (id_cfg e) e m) [] es,
      state = Map.empty,
      stateProvider = p\<rparr>"

definition engines_get :: "CreditManager \<Rightarrow> EngineId \<Rightarrow> EngineConfig option" where
  "engines_get m i = map_of (engines m) i"

text \<open>
  The body of the loop of \<open>resetIfNeeded\<close> for one entry of the engine map: a
  missing record is created with no usage, a record of another month is reset, any other
  record is kept. The loop runs it over the entries in the order of the map.
\<close>

definition reset_entry :: "string \<Rightarrow> EngineId \<Rightarrow> CreditState \<Rightarrow> CreditState" where
  "reset_entry now i st =
     (case st i of
        None \<Rightarrow> st(i \<mapsto> \<lparr>used = 0, lastReset = now\<rparr>)
      | Some r \<Rightarrow>
          if take 7 (lastReset r) \<noteq> take 7 now
          then st(i \<mapsto> r\<lparr>used := 0, lastReset := now\<rparr>)
          else st)"

fun reset_loop :: "string \<Rightarrow> (EngineId \<times> EngineConfig) list \<Rightarrow> CreditState \<Rightarrow> CreditState" where
  "reset_loop now [] st = st"
| "reset_loop now ((i, _) # es) st = reset_loop now es (reset_entry now i st)"

definition resetIfNeeded :: "string \<Rightarrow> CreditManager \<Rightarrow> error + CreditManager" where
  "resetIfNeeded now m =
     (let st = reset_loop now (engines m) (state m) in
      case saveState st (stateProvider m) of
        Inl e \<Rightarrow> Inl e
      | Inr p \<Rightarrow> Inr (m\<lparr>state := st, stateProvider := p\<rparr>))"

definition initialize :: "string \<Rightarrow> CreditManager \<Rightarrow> error + CreditManager" where
  "initialize now m =
     (case loadState (stateProvider m) of
        Inl e \<Rightarrow> Inl e
      | Inr st \<Rightarrow> resetIfNeeded now (m\<lparr>state := st\<rparr>))"

definition charge :: "CreditManager \<Rightarrow> EngineId \<Rightarrow> error + (bool \<times> CreditManager)" where
  "charge m i =
     (case engines_get m i of
        None \<Rightarrow> Inl (UnknownEngine i)
      | Some c \<Rightarrow>
          (case state m i of
             None \<Rightarrow> Inl (NoCreditRecord i)
           | Some r \<Rightarrow>
               if used r + creditCostPerSearch c > monthlyQuota c then Inr (False, m)
               else Inr (True,
                 m\<lparr>state := (state m)(i \<mapsto> r\<lparr>used := used r + creditCostPerSearch c\<rparr>)\<rparr>)))"

definition chargeAndSave :: "CreditManager \<Rightarrow> EngineId \<Rightarrow> error + (bool \<times> CreditManager)" where
  "chargeAndSave m i =
     (case charge m i of
        Inl e \<Rightarrow> Inl e
      | Inr (result, m') \<Rightarrow>
          if result
          then (case saveState (state m') (stateProvider m') of
                  Inl e \<Rightarrow> Inl e
                | Inr p \<Rightarrow> Inr (result, m'\<lparr>stateProvider := p\<rparr>))
          else Inr (result, m'))"

definition hasSufficientCredits :: "CreditManager \<Rightarrow> EngineId \<Rightarrow> bool" where
  "hasSufficientCredits m i =
     (case engines_get m i of
        None \<Rightarrow> False
      | Some c \<Rightarrow>
          (case state m i of
             None \<Rightarrow> True
           | Some r \<Rightarrow> used r + creditCostPerSearch c \<le> monthlyQuota c))"

text \<open>
  \<open>getSnapshot\<close> reads a missing record as one with no usage
  (\<open>this.state[engineId] ?? {used: 0, ...}\<close>).
\<close>

definition getSnapshot :: "CreditManager \<Rightarrow> EngineId \<Rightarrow> error + CreditSnapshot" where
  "getSnapshot m i =
     (case engines_get m i of
        None \<Rightarrow> Inl (UnknownEngine i)
      | Some c \<Rightarrow>
          (let u = (case state m i of None \<Rightarrow> 0 | Some r \<Rightarrow> used r);
               rem = max 0 (monthlyQuota c - u)
           in Inr \<lparr>engineId = i, quota = monthlyQuota c, used_snap = u,
                   remaining = rem, isExhausted = (rem < creditCostPerSearch c)\<rparr>))"

subsection \<open>The sufficiency check as the specification words it\<close>

text \<open>
  The specification describes \<open>hasSufficientCredits\<close> as an operation that fails with
  \<open>UnknownBackend\<close> for an id that is not configured. This second definition follows
  those words, to be compared with \<open>hasSufficientCredits\<close> above, which follows the code.
\<close>

definition hasSufficientCredits_spec :: "CreditManager \<Rightarrow> EngineId \<Rightarrow> error + bool" where
  "hasSufficientCredits_spec m i =
     (case engines_get m i of
        None \<Rightarrow> Inl (UnknownEngine i)
      | Some c \<Rightarrow>
          (case state m i of
             None \<Rightarrow> Inr True
           | Some r \<Rightarrow> Inr (used r + creditCostPerSearch c \<le> monthlyQuota c)))"

section \<open>Search strategies: \<open>src/core/strategy\<close>\<close>

text \<open>
  \<open>ISearchStrategy.ts\<close> declares the result of a strategy and the attempt metadata;
  \<open>StrategyFactory.ts\<close> declares the options. The result item is declared in
  \<open>core/types\<close>; its optional floating-point score plays no part here and is left out.
\<close>

record SearchResultItem =
  title :: string
  url :: string
  snippet :: string
  sourceEngine :: EngineId

record EngineAttempt =
  engineId_att :: EngineId
  success :: bool
  reason :: "string option"

record StrategyResult =
  results :: "SearchResultItem list"
  attempts :: "EngineAttempt list"

record StrategyOptions =
  timeout :: nat
  maxConcurrent :: nat
  retry_attempts :: nat
  retry_delay :: nat

text \<open>
  Modelled from the spec: the search capability of a back-end, whose implementations
  are missing from the source files. A call either fails with a reason
  (\<open>network_error\<close>, \<open>api_error\<close>, ...; a call that times out is one that fails) or
  returns items. \<open>b i k\<close> is the outcome of call number \<open>k\<close> (from 0) issued to back-end
  \<open>i\<close> during one execution; the query and the search options are fixed for an execution
  and are part of \<open>b\<close>.
\<close>

type_synonym SearchOutcome = "string + SearchResultItem list"

type_synonym Backends = "EngineId \<Rightarrow> nat \<Rightarrow> SearchOutcome"

text \<open>
  Modelled from the spec: the state of one execution of a strategy, which is the result
  under construction, the ledger of the strategy's \<open>StrategyContext\<close>, and the log of the
  search calls issued so far (one entry, the id, for each call).
\<close>

record Run = StrategyResult +
  credits :: CreditManager
  calls :: "EngineId list"

text \<open>
  Modelled from the spec: a call fails when it fails with a reason or returns no item
  ("timeout, thrown error, or empty/invalid result shape").
\<close>

definition failure_of :: "SearchOutcome \<Rightarrow> string option" where
  "failure_of out =
     (case out of
        Inl r \<Rightarrow> Some r
      | Inr its \<Rightarrow> if its = [] then Some ''no_results'' else None)"

text \<open>
  Modelled from the spec: the retry policy, "bounded attempts": the call is issued, and
  issued again after a failure while retries are left. The result is the outcome of the
  last call and the number of calls issued. The delay between calls is not modelled.
\<close>

primrec call_with_retry :: "Backends \<Rightarrow> EngineId \<Rightarrow> nat \<Rightarrow> nat \<Rightarrow> SearchOutcome \<times> nat" where
  "call_with_retry b i k 0 =
     (case failure_of (b i k) of None \<Rightarrow> (b i k, 1) | Some r \<Rightarrow> (Inl r, 1))"
| "call_with_retry b i k (Suc n) =
     (case failure_of (b i k) of
        None \<Rightarrow> (b i k, 1)
      | Some r \<Rightarrow> (case call_with_retry b i (Suc k) n of (out, c) \<Rightarrow> (out, Suc c)))"

text \<open>
  Modelled from the spec: the attempt recorded for a back-end that is skipped for lack of
  credits, \<open>EngineAttempt{success: false, reason: "low_credit"}\<close>.
\<close>

definition low_credit :: "EngineId \<Rightarrow> EngineAttempt" where
  "low_credit i = \<lparr>engineId_att = i, success = False, reason = Some ''low_credit''\<rparr>"

text \<open>
  Modelled from the spec: the shared contract of \<open>ISearchStrategy.execute\<close> for one
  back-end id (the classes \<open>AllProvidersStrategy\<close> and \<open>FirstSuccessStrategy\<close> are
  missing from the source files). If the ledger's \<open>hasSufficientCredits\<close> is false, a
  \<open>low_credit\<close> attempt is recorded and nothing else happens. Otherwise the call is issued
  under the retry policy; a success is charged with \<open>chargeAndSave\<close>, recorded, and its
  items are merged; a failure is recorded with its reason. An error thrown by the ledger
  propagates. The Boolean of the result says whether the back-end succeeded. Back-ends
  are dispatched one at a time in input order; the concurrency bound is outside the model.
\<close>

definition attempt_backend ::
    "StrategyOptions \<Rightarrow> Backends \<Rightarrow> EngineId \<Rightarrow> Run \<Rightarrow> error + (bool \<times> Run)" where
  "attempt_backend opts b i s =
     (if \<not> hasSufficientCredits (credits s) i
      then Inr (False, s\<lparr>attempts := attempts s @ [low_credit i]\<rparr>)
      else
        (case call_with_retry b i (count_list (calls s) i) (retry_attempts opts) of
           (out, c) \<Rightarrow>
             (let s1 = s\<lparr>calls := calls s @ replicate c i\<rparr> in
              case out of
                Inl r \<Rightarrow>
                  Inr (False, s1\<lparr>attempts := attempts s1 @
                         [\<lparr>engineId_att = i, success = False, reason = Some r\<rparr>]\<rparr>)
              | Inr its \<Rightarrow>
                  (case chargeAndSave (credits s1) i of
                     Inl e \<Rightarrow> Inl e
                   | Inr (_, m') \<Rightarrow>
                       Inr (True, s1\<lparr>credits := m',
                              attempts := attempts s1 @
                                [\<lparr>engineId_att = i, success = True, reason = None\<rparr>],
                              results := results s1 @ its\<rparr>)))))"

text \<open>
  Modelled from the spec: the missing \<open>AllProvidersStrategy\<close> attempts every back-end
  of the input, in input order; no failure of a back-end aborts the others.
\<close>

fun all_providers_loop ::
    "StrategyOptions \<Rightarrow> Backends \<Rightarrow> EngineId list \<Rightarrow> Run \<Rightarrow> error + Run" where
  "all_providers_loop opts b [] s = Inr s"
| "all_providers_loop opts b (i # is) s =
     (case attempt_backend opts b i s of
        Inl e \<Rightarrow> Inl e
      | Inr (_, s') \<Rightarrow> all_providers_loop opts b is s')"

text \<open>
  Modelled from the spec: the missing \<open>FirstSuccessStrategy\<close> attempts the back-ends in
  input order and stops at the first one that succeeds; no further back-end is tried.
\<close>

fun first_success_loop ::
    "StrategyOptions \<Rightarrow> Backends \<Rightarrow> EngineId list \<Rightarrow> Run \<Rightarrow> error + Run" where
  "first_success_loop opts b [] s = Inr s"
| "first_success_loop opts b (i # is) s =
     (case attempt_backend opts b i s of
        Inl e \<Rightarrow> Inl e
      | Inr (won, s') \<Rightarrow> if won then Inr s' else first_success_loop opts b is s')"

text \<open>
  Modelled from the spec: an execution starts with no result, no attempt and no call
  issued, on the ledger of the strategy's \<open>StrategyContext\<close>.
\<close>

definition start_run :: "CreditManager \<Rightarrow> Run" where
  "start_run m = \<lparr>results = [], attempts = [], credits = m, calls = []\<rparr>"

text \<open>
  Modelled from the spec: \<open>execute\<close> of the missing class \<open>AllProvidersStrategy\<close>.
\<close>

definition AllProvidersStrategy_execute ::
    "StrategyOptions \<Rightarrow> Backends \<Rightarrow> EngineId list \<Rightarrow> CreditManager \<Rightarrow> error + Run" where
  "AllProvidersStrategy_execute opts b ids m = all_providers_loop opts b ids (start_run m)"

text \<open>
  Modelled from the spec: \<open>execute\<close> of the missing class \<open>FirstSuccessStrategy\<close>.
\<close>

definition FirstSuccessStrategy_execute ::
    "StrategyOptions \<Rightarrow> Backends \<Rightarrow> EngineId list \<Rightarrow> CreditManager \<Rightarrow> error + Run" where
  "FirstSuccessStrategy_execute opts b ids m = first_success_loop opts b ids (start_run m)"

section \<open>A small configuration\<close>

text \<open>
  One engine with a quota of 10 credits and a cost of 3 credits per search, a store that
  holds a record for it, and the ledger over both after its state is loaded. The
  theorems below are evaluated on them.
\<close>

definition ex_engine :: EngineConfig where
  "ex_engine = \<lparr>id_cfg = ''tavily'', monthlyQuota = 10, creditCostPerSearch = 3\<rparr>"

definition ex_store :: "int \<Rightarrow> string \<Rightarrow> CreditStateProvider" where
  "ex_store u t =
     \<lparr>stored = [''tavily'' \<mapsto> \<lparr>used = u, lastReset = t\<rparr>], writes = [], online = True\<rparr>"

definition ex_ledger :: "int \<Rightarrow> CreditManager" where
  "ex_ledger u =
     (CreditManager_new [ex_engine] (ex_store u ''2024-01-15T10:30:00.000Z''))
       \<lparr>state := stored (ex_store u ''2024-01-15T10:30:00.000Z'')\<rparr>"

definition ex_unloaded :: "int \<Rightarrow> string \<Rightarrow> CreditManager" where
  "ex_unloaded u t = CreditManager_new [ex_engine] (ex_store u t)"

text \<open>
  The default options of a strategy, a back-end function whose every call fails, one
  whose every call returns one item, and a ledger over two engines: \<open>tavily\<close> with 9 of
  its 10 credits used (one more search of 3 credits does not fit) and \<open>brave\<close> unused.
\<close>

definition ex_opts :: StrategyOptions where
  "ex_opts = \<lparr>timeout = 30000, maxConcurrent = 5, retry_attempts = 2, retry_delay = 1000\<rparr>"

definition ex_down :: Backends where
  "ex_down i k = Inl ''network_error''"

definition ex_up :: Backends where
  "ex_up i k =
     Inr [\<lparr>title = ''Test Result'', url = ''https://test.com'', snippet = ''Test snippet'',
           sourceEngine = i\<rparr>]"

definition ex_brave :: EngineConfig where
  "ex_brave = \<lparr>id_cfg = ''brave'', monthlyQuota = 100, creditCostPerSearch = 1\<rparr>"

definition ex_pair :: CreditManager where
  "ex_pair =
     (CreditManager_new [ex_engine, ex_brave]
        \<lparr>stored = Map.empty, writes = [], online = True\<rparr>)
       \<lparr>state := [''tavily'' \<mapsto> \<lparr>used = 9, lastReset = ''2024-01-15T10:30:00.000Z''\<rparr>,
                  ''brave'' \<mapsto> \<lparr>used = 0, lastReset = ''2024-01-15T10:30:00.000Z''\<rparr>]\<rparr>"

section \<open>The small configuration, evaluated\<close>

lemma ex_ledger_simps:
  "engines_get (ex_ledger u) ''tavily'' = Some ex_engine"
  "state (ex_ledger u) ''tavily'' = Some \<lparr>used = u, lastReset = ''2024-01-15T10:30:00.000Z''\<rparr>"
  by (simp_all add: ex_ledger_def ex_store_def CreditManager_new_def engines_get_def ex_engine_def)

lemma ex_unloaded_simps:
  "online (stateProvider (ex_unloaded u t))"
  "engines_get (ex_unloaded u t) ''tavily'' = Some ex_engine"
  "stored (stateProvider (ex_unloaded u t)) ''tavily'' = Some \<lparr>used = u, lastReset = t\<rparr>"
  by (simp_all add: ex_unloaded_def ex_store_def CreditManager_new_def engines_get_def ex_engine_def)

lemma ex_pair_simps:
  "engines_get ex_pair ''tavily'' = Some ex_engine"
  "engines_get ex_pair ''brave'' = Some ex_brave"
  "state ex_pair ''tavily'' = Some \<lparr>used = 9, lastReset = ''2024-01-15T10:30:00.000Z''\<rparr>"
  "state ex_pair ''brave'' = Some \<lparr>used = 0, lastReset = ''2024-01-15T10:30:00.000Z''\<rparr>"
  "online (stateProvider ex_pair)"
  by (simp_all add: ex_pair_def CreditManager_new_def engines_get_def ex_engine_def ex_brave_def)

lemma ex_pair_low: "\<not> hasSufficientCredits ex_pair ''tavily''"
  using ex_pair_simps by (simp add: hasSufficientCredits_def ex_engine_def)

lemma ex_pair_ok: "hasSufficientCredits ex_pair ''brave''"
  using ex_pair_simps by (simp add: hasSufficientCredits_def ex_brave_def)

lemma ex_pair_charge:
  "\<exists>m'. chargeAndSave ex_pair ''brave'' = Inr (True, m')
     \<and> state m' ''tavily'' = state ex_pair ''tavily''
     \<and> state m' ''brave'' = Some \<lparr>used = 1, lastReset = ''2024-01-15T10:30:00.000Z''\<rparr>"
  using ex_pair_simps by (simp add: chargeAndSave_def charge_def saveState_def ex_brave_def)

lemma ex_up_first_try: "call_with_retry ex_up i k n = (ex_up i k, 1)"
  by (cases n) (simp_all add: ex_up_def failure_of_def)

section \<open>The configured engines\<close>

text \<open>
  The ids for which the engine map of a constructed ledger has an entry are the ids of
  the configurations given to the constructor.
\<close>

lemma foldl_update_keys:
  "fst ` set (foldl (\<lambda>m e. AList.update (id_cfg e) e m) acc es) = fst ` set acc \<union> id_cfg ` set es"
  by (induction es arbitrary: acc) (auto simp: dom_update)

lemma configured_ids:
  "(engines_get (CreditManager_new es p) i \<noteq> None) = (i \<in> id_cfg ` set es)"
  by (simp add: engines_get_def CreditManager_new_def map_of_eq_None_iff foldl_update_keys)

section \<open>Charging\<close>

text \<open>
  C1. For a configured engine that has a usage record: if \<open>used + creditCostPerSearch\<close>
  is at most \<open>monthlyQuota\<close>, then \<open>charge\<close> returns true and the record's \<open>used\<close> grows by
  exactly \<open>creditCostPerSearch\<close> (nothing else in the ledger changes); if it exceeds the
  quota, \<open>charge\<close> returns false and the whole ledger, hence \<open>used\<close>, is unchanged.
\<close>

theorem charge_exact_or_refused:
  assumes "engines_get m i = Some c" and "state m i = Some r"
  shows "(used r + creditCostPerSearch c \<le> monthlyQuota c \<longrightarrow>
            (\<exists>m'. charge m i = Inr (True, m')
               \<and> state m' i = Some (r\<lparr>used := used r + creditCostPerSearch c\<rparr>)
               \<and> (\<forall>j. j \<noteq> i \<longrightarrow> state m' j = state m j)
               \<and> engines m' = engines m
               \<and> stateProvider m' = stateProvider m))
       \<and> (used r + creditCostPerSearch c > monthlyQuota c \<longrightarrow>
            charge m i = Inr (False, m))"
  using assms by (simp add: charge_def)

theorem charge_exact_or_refused_witness:
  "(\<exists>m'. charge (ex_ledger 0) ''tavily'' = Inr (True, m')
      \<and> state m' ''tavily'' = Some \<lparr>used = 3, lastReset = ''2024-01-15T10:30:00.000Z''\<rparr>)
   \<and> charge (ex_ledger 9) ''tavily'' = Inr (False, ex_ledger 9)"
  using charge_exact_or_refused [OF ex_ledger_simps(1) ex_ledger_simps(2), of 0]
        charge_exact_or_refused [OF ex_ledger_simps(1) ex_ledger_simps(2), of 9]
  by (auto simp: ex_engine_def)

section \<open>The monthly reset\<close>

lemma reset_entry_at:
  "reset_entry now j st i =
     (if i = j
      then Some (case st j of
                   None \<Rightarrow> \<lparr>used = 0, lastReset = now\<rparr>
                 | Some r \<Rightarrow> if take 7 (lastReset r) \<noteq> take 7 now
                             then r\<lparr>used := 0, lastReset := now\<rparr> else r)
      else st i)"
  by (simp add: reset_entry_def split: option.splits)

lemma reset_entry_settled:
  "st i = Some r \<Longrightarrow> take 7 (lastReset r) = take 7 now \<Longrightarrow> reset_entry now j st i = Some r"
  by (cases "i = j") (auto simp: reset_entry_def split: option.splits)

lemma reset_loop_settled:
  "st i = Some r \<Longrightarrow> take 7 (lastReset r) = take 7 now \<Longrightarrow> reset_loop now es st i = Some r"
proof (induction es arbitrary: st)
  case Nil
  then show ?case by simp
next
  case (Cons e es)
  obtain j c where e: "e = (j, c)" by (cases e)
  have "reset_entry now j st i = Some r"
    using Cons.prems by (rule reset_entry_settled)
  then have "reset_loop now es (reset_entry now j st) i = Some r"
    using Cons.prems(2) by (rule Cons.IH)
  then show ?case by (simp add: e)
qed

lemma reset_loop_notin:
  "i \<notin> fst ` set es \<Longrightarrow> reset_loop now es st i = st i"
proof (induction es arbitrary: st)
  case Nil
  show ?case by simp
next
  case (Cons e es)
  obtain j c where e: "e = (j, c)" by (cases e)
  from Cons.prems e have ne: "i \<noteq> j" and notin: "i \<notin> fst ` set es" by auto
  have "reset_loop now es (reset_entry now j st) i = reset_entry now j st i"
    using notin by (rule Cons.IH)
  then show ?case using ne by (simp add: e reset_entry_at)
qed

lemma reset_loop_in:
  "i \<in> fst ` set es \<Longrightarrow>
   reset_loop now es st i =
     Some (case st i of
             None \<Rightarrow> \<lparr>used = 0, lastReset = now\<rparr>
           | Some r \<Rightarrow> if take 7 (lastReset r) \<noteq> take 7 now
                       then r\<lparr>used := 0, lastReset := now\<rparr> else r)"
proof (induction es arbitrary: st)
  case Nil
  then show ?case by simp
next
  case (Cons e es)
  obtain j c where e: "e = (j, c)" by (cases e)
  let ?r = "case st i of
              None \<Rightarrow> \<lparr>used = 0, lastReset = now\<rparr>
            | Some r \<Rightarrow> if take 7 (lastReset r) \<noteq> take 7 now
                        then r\<lparr>used := 0, lastReset := now\<rparr> else r"
  show ?case
  proof (cases "i = j")
    case True
    have at: "reset_entry now j st i = Some ?r"
      using True by (simp add: reset_entry_at)
    have month: "take 7 (lastReset ?r) = take 7 now"
      by (simp split: option.splits)
    have "reset_loop now es (reset_entry now j st) i = Some ?r"
      using at month by (rule reset_loop_settled)
    then show ?thesis by (simp add: e)
  next
    case False
    with Cons.prems e have "i \<in> fst ` set es" by auto
    then have "reset_loop now es (reset_entry now j st) i =
        Some (case reset_entry now j st i of
             None \<Rightarrow> \<lparr>used = 0, lastReset = now\<rparr>
           | Some r \<Rightarrow> if take 7 (lastReset r) \<noteq> take 7 now
                       then r\<lparr>used := 0, lastReset := now\<rparr> else r)"
      by (rule Cons.IH)
    moreover have "reset_entry now j st i = st i"
      using False by (simp add: reset_entry_at)
    ultimately show ?thesis by (simp add: e)
  qed
qed

lemma reset_loop_twice:
  assumes "take 7 now2 = take 7 now1"
  shows "reset_loop now2 es (reset_loop now1 es st) = reset_loop now1 es st"
proof
  fix i
  show "reset_loop now2 es (reset_loop now1 es st) i = reset_loop now1 es st i"
  proof (cases "i \<in> fst ` set es")
    case True
    show ?thesis
      using assms
      by (simp add: reset_loop_in [OF True, of now2] reset_loop_in [OF True, of now1 st]
               split: option.splits)
  next
    case False
    then show ?thesis by (simp add: reset_loop_notin)
  qed
qed

lemma engines_get_in: "engines_get m i = Some c \<Longrightarrow> i \<in> fst ` set (engines m)"
  by (auto simp: engines_get_def dest: map_of_SomeD intro: rev_image_eqI)

lemma initialize_online:
  assumes "online (stateProvider m)"
  shows "initialize now m =
     Inr (m\<lparr>state := reset_loop now (engines m) (stored (stateProvider m)),
           stateProvider := (stateProvider m)
             \<lparr>stored := reset_loop now (engines m) (stored (stateProvider m)),
              writes := writes (stateProvider m) @
                [reset_loop now (engines m) (stored (stateProvider m))]\<rparr>\<rparr>)"
  using assms by (simp add: initialize_def resetIfNeeded_def loadState_def saveState_def Let_def)

text \<open>
  C3. \<open>initialize\<close> on a working store returns, and for a configured engine whose stored
  record has a \<open>lastReset\<close> whose first seven characters (\<open>YYYY-MM\<close>) differ from those
  of the current time, the record becomes \<open>used = 0\<close> with \<open>lastReset\<close> the current time;
  a record of the current month is kept as it is, \<open>used\<close> included. The snapshot written
  back is the new in-memory state.
\<close>

theorem initialize_resets_other_months:
  assumes "online (stateProvider m)" and "engines_get m i = Some c"
    and "stored (stateProvider m) i = Some r"
  shows "\<exists>m'. initialize now m = Inr m'
           \<and> (take 7 (lastReset r) \<noteq> take 7 now \<longrightarrow>
                state m' i = Some (r\<lparr>used := 0, lastReset := now\<rparr>))
           \<and> (take 7 (lastReset r) = take 7 now \<longrightarrow> state m' i = Some r)
           \<and> stored (stateProvider m') = state m'"
proof -
  from assms(2) have "i \<in> fst ` set (engines m)" by (rule engines_get_in)
  then have "reset_loop now (engines m) (stored (stateProvider m)) i =
      Some (if take 7 (lastReset r) \<noteq> take 7 now then r\<lparr>used := 0, lastReset := now\<rparr> else r)"
    using assms(3) by (simp add: reset_loop_in)
  then show ?thesis
    by (simp add: initialize_online [OF assms(1)])
qed

theorem initialize_resets_other_months_witness:
  "(\<exists>m'. initialize ''2024-02-01T00:00:05.000Z'' (ex_unloaded 7 ''2024-01-31T23:59:59.000Z'') = Inr m'
      \<and> state m' ''tavily'' = Some \<lparr>used = 0, lastReset = ''2024-02-01T00:00:05.000Z''\<rparr>)
   \<and> (\<exists>m'. initialize ''2024-02-01T00:00:05.000Z'' (ex_unloaded 7 ''2024-02-01T00:00:00.000Z'') = Inr m'
      \<and> state m' ''tavily'' = Some \<lparr>used = 7, lastReset = ''2024-02-01T00:00:00.000Z''\<rparr>)"
  using initialize_resets_other_months [OF ex_unloaded_simps, where now = "''2024-02-01T00:00:05.000Z''" and u1 = 7 and t1 = "''2024-01-31T23:59:59.000Z''"]
        initialize_resets_other_months [OF ex_unloaded_simps, where now = "''2024-02-01T00:00:05.000Z''" and u1 = 7 and t1 = "''2024-02-01T00:00:00.000Z''"]
  by auto

text \<open>
  C4. \<open>initialize\<close> is idempotent within a calendar month: from any stored state, a
  second \<open>initialize\<close> at a time of the same month (the same \<open>YYYY-MM\<close> prefix) returns and
  leaves the in-memory state and the stored snapshot exactly as the first call left them.
\<close>

theorem initialize_twice_same_month:
  assumes "online (stateProvider m)" and "take 7 now2 = take 7 now1"
  shows "\<exists>m1 m2. initialize now1 m = Inr m1 \<and> initialize now2 m1 = Inr m2
           \<and> state m2 = state m1
           \<and> stored (stateProvider m2) = stored (stateProvider m1)
           \<and> engines m2 = engines m1"
proof -
  let ?m1 = "m\<lparr>state := reset_loop now1 (engines m) (stored (stateProvider m)),
           stateProvider := (stateProvider m)
             \<lparr>stored := reset_loop now1 (engines m) (stored (stateProvider m)),
              writes := writes (stateProvider m) @
                [reset_loop now1 (engines m) (stored (stateProvider m))]\<rparr>\<rparr>"
  have one: "initialize now1 m = Inr ?m1"
    using assms(1) by (rule initialize_online)
  have on1: "online (stateProvider ?m1)" using assms(1) by simp
  let ?m2 = "?m1\<lparr>state := reset_loop now2 (engines ?m1) (stored (stateProvider ?m1)),
           stateProvider := (stateProvider ?m1)
             \<lparr>stored := reset_loop now2 (engines ?m1) (stored (stateProvider ?m1)),
              writes := writes (stateProvider ?m1) @
                [reset_loop now2 (engines ?m1) (stored (stateProvider ?m1))]\<rparr>\<rparr>"
  have two: "initialize now2 ?m1 = Inr ?m2"
    using on1 by (rule initialize_online)
  have same: "reset_loop now2 (engines m) (reset_loop now1 (engines m) (stored (stateProvider m)))
      = reset_loop now1 (engines m) (stored (stateProvider m))"
    using assms(2) by (rule reset_loop_twice)
  show ?thesis
  proof (intro exI conjI)
    show "initialize now1 m = Inr ?m1" by (rule one)
    show "initialize now2 ?m1 = Inr ?m2" by (rule two)
    show "state ?m2 = state ?m1" using same by simp
    show "stored (stateProvider ?m2) = stored (stateProvider ?m1)" using same by simp
    show "engines ?m2 = engines ?m1" by simp
  qed
qed

theorem initialize_twice_same_month_witness:
  "online (stateProvider (ex_unloaded 7 ''2024-01-31T23:59:59.000Z''))
   \<and> take 7 ''2024-02-29T23:59:59.999Z'' = take 7 ''2024-02-01T00:00:05.000Z''
   \<and> (\<exists>m1 m2.
         initialize ''2024-02-01T00:00:05.000Z'' (ex_unloaded 7 ''2024-01-31T23:59:59.000Z'') = Inr m1
       \<and> initialize ''2024-02-29T23:59:59.999Z'' m1 = Inr m2
       \<and> state m2 = state m1
       \<and> stored (stateProvider m2) = stored (stateProvider m1)
       \<and> engines m2 = engines m1)"
  using initialize_twice_same_month [OF ex_unloaded_simps(1),
      where ?now1.0 = "''2024-02-01T00:00:05.000Z''" and ?now2.0 = "''2024-02-29T23:59:59.999Z''"
        and u1 = 7 and t1 = "''2024-01-31T23:59:59.000Z''"]
    ex_unloaded_simps(1) [of 7 "''2024-01-31T23:59:59.000Z''"]
  by simp

section \<open>Snapshots\<close>

lemma engines_get_state_upd [simp]: "engines_get (m\<lparr>state := st\<rparr>) i = engines_get m i"
  by (simp add: engines_get_def)

text \<open>
  C5. For a configured engine, \<open>getSnapshot\<close> returns a snapshot whose \<open>remaining\<close> is
  \<open>max 0 (quota - used)\<close> (a missing record counts as \<open>used = 0\<close>) and whose \<open>isExhausted\<close>
  is \<open>remaining < creditCostPerSearch\<close>. With a quota of 10 and a cost of 3, three charges
  from \<open>used = 0\<close> all succeed and leave \<open>used = 9\<close>, \<open>remaining = 1\<close>, \<open>isExhausted\<close> true,
  and a fourth charge returns false.
\<close>

theorem snapshot_remaining_and_scenario:
  assumes "engines_get m i = Some c"
  shows "(\<exists>s. getSnapshot m i = Inr s
            \<and> engineId s = i
            \<and> quota s = monthlyQuota c
            \<and> used_snap s = (case state m i of None \<Rightarrow> 0 | Some r \<Rightarrow> used r)
            \<and> remaining s = max 0 (quota s - used_snap s)
            \<and> isExhausted s = (remaining s < creditCostPerSearch c))
       \<and> (monthlyQuota c = 10 \<and> creditCostPerSearch c = 3 \<longrightarrow>
            (\<forall>r. state m i = Some r \<and> used r = 0 \<longrightarrow>
               (\<exists>m1 m2 m3.
                   charge m i = Inr (True, m1)
                 \<and> charge m1 i = Inr (True, m2)
                 \<and> charge m2 i = Inr (True, m3)
                 \<and> getSnapshot m3 i =
                     Inr \<lparr>engineId = i, quota = 10, used_snap = 9, remaining = 1,
                          isExhausted = True\<rparr>
                 \<and> charge m3 i = Inr (False, m3))))"
proof (intro conjI impI allI)
  show "\<exists>s. getSnapshot m i = Inr s
            \<and> engineId s = i
            \<and> quota s = monthlyQuota c
            \<and> used_snap s = (case state m i of None \<Rightarrow> 0 | Some r \<Rightarrow> used r)
            \<and> remaining s = max 0 (quota s - used_snap s)
            \<and> isExhausted s = (remaining s < creditCostPerSearch c)"
    using assms by (simp add: getSnapshot_def Let_def)
next
  fix r
  assume qc: "monthlyQuota c = 10 \<and> creditCostPerSearch c = 3"
    and r: "state m i = Some r \<and> used r = 0"
  let ?m1 = "m\<lparr>state := (state m)(i \<mapsto> r\<lparr>used := 3\<rparr>)\<rparr>"
  let ?m2 = "?m1\<lparr>state := (state ?m1)(i \<mapsto> r\<lparr>used := 6\<rparr>)\<rparr>"
  let ?m3 = "?m2\<lparr>state := (state ?m2)(i \<mapsto> r\<lparr>used := 9\<rparr>)\<rparr>"
  have c1: "charge m i = Inr (True, ?m1)"
    using assms qc r by (simp add: charge_def)
  have c2: "charge ?m1 i = Inr (True, ?m2)"
    using assms qc r by (simp add: charge_def)
  have c3: "charge ?m2 i = Inr (True, ?m3)"
    using assms qc r by (simp add: charge_def)
  have s3: "getSnapshot ?m3 i =
      Inr \<lparr>engineId = i, quota = 10, used_snap = 9, remaining = 1, isExhausted = True\<rparr>"
    using assms qc r by (simp add: getSnapshot_def)
  have c4: "charge ?m3 i = Inr (False, ?m3)"
    using assms qc r by (simp add: charge_def)
  from c1 c2 c3 s3 c4
  show "\<exists>m1 m2 m3.
                   charge m i = Inr (True, m1)
                 \<and> charge m1 i = Inr (True, m2)
                 \<and> charge m2 i = Inr (True, m3)
                 \<and> getSnapshot m3 i =
                     Inr \<lparr>engineId = i, quota = 10, used_snap = 9, remaining = 1,
                          isExhausted = True\<rparr>
                 \<and> charge m3 i = Inr (False, m3)"
    by blast
qed

theorem snapshot_remaining_and_scenario_witness:
  "engines_get (ex_ledger 0) ''tavily'' = Some ex_engine
   \<and> (\<exists>s. getSnapshot (ex_ledger 0) ''tavily'' = Inr s \<and> used_snap s = 0 \<and> remaining s = 10
          \<and> \<not> isExhausted s)
   \<and> (\<exists>m1 m2 m3.
         charge (ex_ledger 0) ''tavily'' = Inr (True, m1)
       \<and> charge m1 ''tavily'' = Inr (True, m2)
       \<and> charge m2 ''tavily'' = Inr (True, m3)
       \<and> getSnapshot m3 ''tavily'' =
           Inr \<lparr>engineId = ''tavily'', quota = 10, used_snap = 9, remaining = 1,
                isExhausted = True\<rparr>
       \<and> charge m3 ''tavily'' = Inr (False, m3))"
  using snapshot_remaining_and_scenario [OF ex_ledger_simps(1), of 0] ex_ledger_simps [of 0]
  by (auto simp: ex_engine_def)

section \<open>Charging and persisting\<close>

lemma charge_frame:
  "charge m j = Inr (r, m') \<Longrightarrow>
     engines m' = engines m \<and> stateProvider m' = stateProvider m
     \<and> (\<forall>i. i \<noteq> j \<longrightarrow> state m' i = state m i)"
  by (auto simp: charge_def split: option.splits if_splits)

text \<open>
  C6. \<open>chargeAndSave\<close> writes the snapshot through the store exactly when the charge
  succeeded. When \<open>charge\<close> returns false, \<open>chargeAndSave\<close> returns false and the store is
  untouched. When \<open>charge\<close> returns true, the full state after the charge is written
  (it becomes the stored snapshot and the last entry of the write log) and true is
  returned; if the store throws, so does \<open>chargeAndSave\<close>. An error of \<open>charge\<close>
  propagates. Conversely, whenever \<open>chargeAndSave\<close> returns, its Boolean is the one of
  \<open>charge\<close>, and the write log has grown by the current state if it is true and has not
  changed if it is false.
\<close>

theorem chargeAndSave_writes_iff_charged:
  "(\<forall>m'. charge m i = Inr (False, m') \<longrightarrow>
       chargeAndSave m i = Inr (False, m') \<and> stateProvider m' = stateProvider m)
   \<and> (\<forall>m'. charge m i = Inr (True, m') \<longrightarrow>
       (if online (stateProvider m)
        then chargeAndSave m i =
               Inr (True, m'\<lparr>stateProvider := (stateProvider m)
                      \<lparr>stored := state m', writes := writes (stateProvider m) @ [state m']\<rparr>\<rparr>)
        else chargeAndSave m i = Inl PersistenceFailure))
   \<and> (\<forall>e. charge m i = Inl e \<longrightarrow> chargeAndSave m i = Inl e)
   \<and> (\<forall>res m''. chargeAndSave m i = Inr (res, m'') \<longrightarrow>
       (\<exists>m'. charge m i = Inr (res, m') \<and> state m'' = state m')
       \<and> writes (stateProvider m'') =
           (if res then writes (stateProvider m) @ [state m''] else writes (stateProvider m)))"
proof (intro conjI allI impI)
  fix m'
  assume "charge m i = Inr (False, m')"
  then show "chargeAndSave m i = Inr (False, m')" by (simp add: chargeAndSave_def)
next
  fix m'
  assume "charge m i = Inr (False, m')"
  then show "stateProvider m' = stateProvider m" by (simp add: charge_frame)
next
  fix m'
  assume c: "charge m i = Inr (True, m')"
  then have "stateProvider m' = stateProvider m" by (simp add: charge_frame)
  with c show "if online (stateProvider m)
        then chargeAndSave m i =
               Inr (True, m'\<lparr>stateProvider := (stateProvider m)
                      \<lparr>stored := state m', writes := writes (stateProvider m) @ [state m']\<rparr>\<rparr>)
        else chargeAndSave m i = Inl PersistenceFailure"
    by (simp add: chargeAndSave_def saveState_def)
next
  fix e
  assume "charge m i = Inl e"
  then show "chargeAndSave m i = Inl e" by (simp add: chargeAndSave_def)
next
  fix res m''
  assume cs: "chargeAndSave m i = Inr (res, m'')"
  then obtain m' where c: "charge m i = Inr (res, m')"
    by (cases "charge m i") (auto simp: chargeAndSave_def split: if_splits sum.splits)
  then have p: "stateProvider m' = stateProvider m" by (simp add: charge_frame)
  from cs c p have st: "state m'' = state m'"
    by (cases res) (auto simp: chargeAndSave_def saveState_def split: if_splits)
  with c show "\<exists>m'. charge m i = Inr (res, m') \<and> state m'' = state m'" by blast
  from cs c p st show "writes (stateProvider m'') =
           (if res then writes (stateProvider m) @ [state m''] else writes (stateProvider m))"
    by (cases res) (auto simp: chargeAndSave_def saveState_def split: if_splits)
qed

theorem chargeAndSave_writes_iff_charged_witness:
  "(\<exists>m''. chargeAndSave (ex_ledger 0) ''tavily'' = Inr (True, m'')
       \<and> writes (stateProvider m'') = [state m'']
       \<and> state m'' ''tavily'' = Some \<lparr>used = 3, lastReset = ''2024-01-15T10:30:00.000Z''\<rparr>)
   \<and> chargeAndSave (ex_ledger 9) ''tavily'' = Inr (False, ex_ledger 9)
   \<and> writes (stateProvider (ex_ledger 9)) = []"
proof -
  have c0: "\<exists>m'. charge (ex_ledger 0) ''tavily'' = Inr (True, m')
      \<and> state m' ''tavily'' = Some \<lparr>used = 3, lastReset = ''2024-01-15T10:30:00.000Z''\<rparr>"
    using ex_ledger_simps [of 0] by (simp add: charge_def ex_engine_def)
  have c9: "charge (ex_ledger 9) ''tavily'' = Inr (False, ex_ledger 9)"
    using ex_ledger_simps [of 9] by (simp add: charge_def ex_engine_def)
  have on: "online (stateProvider (ex_ledger 0))" "writes (stateProvider (ex_ledger 0)) = []"
    "writes (stateProvider (ex_ledger 9)) = []"
    by (simp_all add: ex_ledger_def ex_store_def CreditManager_new_def)
  from c0 obtain m' where
    m': "charge (ex_ledger 0) ''tavily'' = Inr (True, m')" and
    st: "state m' ''tavily'' = Some \<lparr>used = 3, lastReset = ''2024-01-15T10:30:00.000Z''\<rparr>"
    by blast
  have T0: "\<forall>m'. charge (ex_ledger 0) ''tavily'' = Inr (True, m') \<longrightarrow>
       (if online (stateProvider (ex_ledger 0))
        then chargeAndSave (ex_ledger 0) ''tavily'' =
               Inr (True, m'\<lparr>stateProvider := (stateProvider (ex_ledger 0))
                      \<lparr>stored := state m',
                       writes := writes (stateProvider (ex_ledger 0)) @ [state m']\<rparr>\<rparr>)
        else chargeAndSave (ex_ledger 0) ''tavily'' = Inl PersistenceFailure)"
    using chargeAndSave_writes_iff_charged [of "ex_ledger 0" "''tavily''"] by (rule conjunct2 [THEN conjunct1])
  have T9: "\<forall>m'. charge (ex_ledger 9) ''tavily'' = Inr (False, m') \<longrightarrow>
       chargeAndSave (ex_ledger 9) ''tavily'' = Inr (False, m')
       \<and> stateProvider m' = stateProvider (ex_ledger 9)"
    using chargeAndSave_writes_iff_charged [of "ex_ledger 9" "''tavily''"] by (rule conjunct1)
  from T0 m' on(1) have
    "chargeAndSave (ex_ledger 0) ''tavily'' =
       Inr (True, m'\<lparr>stateProvider := (stateProvider (ex_ledger 0))
              \<lparr>stored := state m', writes := writes (stateProvider (ex_ledger 0)) @ [state m']\<rparr>\<rparr>)"
    by simp
  with st on(2) have A: "\<exists>m''. chargeAndSave (ex_ledger 0) ''tavily'' = Inr (True, m'')
       \<and> writes (stateProvider m'') = [state m'']
       \<and> state m'' ''tavily'' = Some \<lparr>used = 3, lastReset = ''2024-01-15T10:30:00.000Z''\<rparr>"
    by simp
  from T9 c9 have B: "chargeAndSave (ex_ledger 9) ''tavily'' = Inr (False, ex_ledger 9)"
    by simp
  from A B on(3) show ?thesis by simp
qed

section \<open>Unknown engines\<close>

text \<open>
  C10. For an engine id that is not configured, \<open>getSnapshot\<close> throws the
  \<open>Unknown engine\<close> error and returns no snapshot, whereas \<open>hasSufficientCredits\<close> for the
  same id returns a Boolean, namely false, and does not throw.
\<close>

theorem unknown_engine_snapshot_throws_check_false:
  assumes "engines_get m i = None"
  shows "getSnapshot m i = Inl (UnknownEngine i) \<and> hasSufficientCredits m i = False"
  using assms by (simp add: getSnapshot_def hasSufficientCredits_def)

theorem unknown_engine_snapshot_throws_check_false_witness:
  "engines_get (ex_ledger 0) ''ghost'' = None
   \<and> getSnapshot (ex_ledger 0) ''ghost'' = Inl (UnknownEngine ''ghost'')
   \<and> hasSufficientCredits (ex_ledger 0) ''ghost'' = False"
proof -
  have none: "engines_get (ex_ledger 0) ''ghost'' = None"
    by (simp add: ex_ledger_def CreditManager_new_def engines_get_def ex_engine_def)
  from unknown_engine_snapshot_throws_check_false [OF none] none show ?thesis by simp
qed


text \<open>
  C2 as the specification states it fails on the code: for an id that is not configured
  the operation of the specification fails with the unknown-engine error, and the code
  returns false.
\<close>

theorem hasSufficientCredits_unknown_counterexample:
  "engines_get (ex_ledger 0) ''brave'' = None
   \<and> hasSufficientCredits_spec (ex_ledger 0) ''brave'' = Inl (UnknownEngine ''brave'')
   \<and> hasSufficientCredits (ex_ledger 0) ''brave'' = False
   \<and> hasSufficientCredits_spec (ex_ledger 0) ''brave''
       \<noteq> Inr (hasSufficientCredits (ex_ledger 0) ''brave'')"
  by (simp add: hasSufficientCredits_spec_def hasSufficientCredits_def
        ex_ledger_def CreditManager_new_def engines_get_def ex_engine_def)

text \<open>
  C2, amended. For an engine id that is not configured, \<open>hasSufficientCredits\<close> returns
  false and throws nothing. For a configured engine it returns true if there is no usage
  record yet, and otherwise returns true exactly when
  \<open>used + creditCostPerSearch \<le> monthlyQuota\<close>; there it agrees with the operation as
  the specification words it.
\<close>

theorem hasSufficientCredits_false_when_unknown:
  "(engines_get m i = None \<longrightarrow> hasSufficientCredits m i = False)
   \<and> (\<forall>c. engines_get m i = Some c \<longrightarrow>
         (state m i = None \<longrightarrow> hasSufficientCredits m i = True)
       \<and> (\<forall>r. state m i = Some r \<longrightarrow>
             hasSufficientCredits m i = (used r + creditCostPerSearch c \<le> monthlyQuota c))
       \<and> hasSufficientCredits_spec m i = Inr (hasSufficientCredits m i))"
  by (auto simp: hasSufficientCredits_def hasSufficientCredits_spec_def split: option.splits)

theorem hasSufficientCredits_false_when_unknown_witness:
  "engines_get (ex_unloaded 0 []) ''exa'' = None
   \<and> hasSufficientCredits (ex_unloaded 0 []) ''exa'' = False
   \<and> engines_get (ex_unloaded 0 []) ''tavily'' = Some ex_engine
   \<and> state (ex_unloaded 0 []) ''tavily'' = None
   \<and> hasSufficientCredits (ex_unloaded 0 []) ''tavily'' = True
   \<and> state (ex_ledger 8) ''tavily'' = Some \<lparr>used = 8, lastReset = ''2024-01-15T10:30:00.000Z''\<rparr>
   \<and> hasSufficientCredits (ex_ledger 8) ''tavily'' = False
   \<and> hasSufficientCredits (ex_ledger 7) ''tavily'' = True"
proof -
  have none: "engines_get (ex_unloaded 0 []) ''exa'' = None"
    "state (ex_unloaded 0 []) ''tavily'' = None"
    by (simp_all add: ex_unloaded_def CreditManager_new_def engines_get_def ex_engine_def)
  from none ex_unloaded_simps(2) [of 0 "[]"] ex_ledger_simps [of 8] ex_ledger_simps [of 7]
    hasSufficientCredits_false_when_unknown [of "ex_unloaded 0 []" "''exa''"]
    hasSufficientCredits_false_when_unknown [of "ex_unloaded 0 []" "''tavily''"]
    hasSufficientCredits_false_when_unknown [of "ex_ledger 8" "''tavily''"]
    hasSufficientCredits_false_when_unknown [of "ex_ledger 7" "''tavily''"]
  show ?thesis by (simp add: ex_engine_def)
qed

section \<open>Strategies and the credit gate\<close>

lemma chargeAndSave_frame:
  "chargeAndSave m j = Inr (r, m') \<Longrightarrow>
     engines m' = engines m \<and> (\<forall>i. i \<noteq> j \<longrightarrow> state m' i = state m i)"
  by (auto simp: chargeAndSave_def split: sum.splits prod.splits if_splits dest!: charge_frame)

lemma hasSufficientCredits_cong:
  "engines m' = engines m \<Longrightarrow> state m' i = state m i \<Longrightarrow>
   hasSufficientCredits m' i = hasSufficientCredits m i"
  by (simp add: hasSufficientCredits_def engines_get_def split: option.splits)

lemma attempt_backend_low:
  "\<not> hasSufficientCredits (credits s) i \<Longrightarrow>
   attempt_backend opts b i s = Inr (False, s\<lparr>attempts := attempts s @ [low_credit i]\<rparr>)"
  by (simp add: attempt_backend_def)

lemma attempt_backend_step:
  assumes "attempt_backend opts b j s = Inr (w, s')"
  shows "engines (credits s') = engines (credits s)
       \<and> (\<forall>i. i \<noteq> j \<longrightarrow> state (credits s') i = state (credits s) i)
       \<and> (\<exists>c. calls s' = calls s @ replicate c j)
       \<and> (\<exists>a. attempts s' = attempts s @ [a] \<and> engineId_att a = j)"
proof (cases "hasSufficientCredits (credits s) j")
  case False
  with assms show ?thesis by (auto simp: attempt_backend_low low_credit_def)
next
  case True
  obtain out c where cr: "call_with_retry b j (count_list (calls s) j) (retry_attempts opts) = (out, c)"
    by (cases "call_with_retry b j (count_list (calls s) j) (retry_attempts opts)")
  show ?thesis
  proof (cases out)
    case (Inl r)
    with assms True cr show ?thesis by (auto simp: attempt_backend_def)
  next
    case (Inr its)
    show ?thesis
    proof (cases "chargeAndSave (credits s) j")
      case bad: (Inl e)
      with assms True cr Inr show ?thesis by (simp add: attempt_backend_def)
    next
      case ok: (Inr p)
      obtain x m' where p: "p = (x, m')" by (cases p)
      from assms True cr Inr ok p have
        s': "s' = s\<lparr>calls := calls s @ replicate c j, credits := m',
                 attempts := attempts s @ [\<lparr>engineId_att = j, success = True, reason = None\<rparr>],
                 results := results s @ its\<rparr>"
        by (simp add: attempt_backend_def)
      from ok p have cs: "chargeAndSave (credits s) j = Inr (x, m')" by simp
      from chargeAndSave_frame [OF cs] s' show ?thesis by simp
    qed
  qed
qed

lemma attempt_backend_other:
  assumes "attempt_backend opts b j s = Inr (w, s')" and "\<not> hasSufficientCredits (credits s) i"
    and "i \<notin> set (calls s)"
  shows "\<not> hasSufficientCredits (credits s') i
       \<and> state (credits s') i = state (credits s) i
       \<and> i \<notin> set (calls s')
       \<and> (\<exists>a. attempts s' = attempts s @ [a] \<and> engineId_att a = j \<and> (j = i \<longrightarrow> a = low_credit i))"
proof (cases "j = i")
  case True
  with assms show ?thesis by (auto simp: attempt_backend_low low_credit_def)
next
  case False
  from attempt_backend_step [OF assms(1)] False
  have e: "engines (credits s') = engines (credits s)"
    and st: "state (credits s') i = state (credits s) i"
    and c: "\<exists>c. calls s' = calls s @ replicate c j"
    and a: "\<exists>a. attempts s' = attempts s @ [a] \<and> engineId_att a = j"
    by auto
  from hasSufficientCredits_cong [OF e st] assms(2)
  have "\<not> hasSufficientCredits (credits s') i" by simp
  moreover from c False assms(3) have "i \<notin> set (calls s')" by auto
  ultimately show ?thesis using st a False by auto
qed

lemma all_providers_loop_low:
  assumes "all_providers_loop opts b ids s = Inr s'" and "\<not> hasSufficientCredits (credits s) i"
    and "i \<notin> set (calls s)"
  shows "i \<notin> set (calls s') \<and> state (credits s') i = state (credits s) i
       \<and> (\<exists>new. attempts s' = attempts s @ new \<and> map engineId_att new = ids
             \<and> (\<forall>a \<in> set new. engineId_att a = i \<longrightarrow> a = low_credit i))"
  using assms
proof (induction ids arbitrary: s)
  case Nil
  then show ?case by simp
next
  case (Cons j ids)
  from Cons.prems(1) obtain w s1 where
    step: "attempt_backend opts b j s = Inr (w, s1)" and
    rest: "all_providers_loop opts b ids s1 = Inr s'"
    by (cases "attempt_backend opts b j s") (auto split: prod.splits)
  from attempt_backend_other [OF step Cons.prems(2) Cons.prems(3)] obtain a where
    low1: "\<not> hasSufficientCredits (credits s1) i" and
    st1: "state (credits s1) i = state (credits s) i" and
    calls1: "i \<notin> set (calls s1)" and
    a: "attempts s1 = attempts s @ [a]" "engineId_att a = j" "j = i \<longrightarrow> a = low_credit i"
    by blast
  from Cons.IH [OF rest low1 calls1] obtain new where
    c': "i \<notin> set (calls s')" and st': "state (credits s') i = state (credits s1) i" and
    new: "attempts s' = attempts s1 @ new" "map engineId_att new = ids"
      "\<forall>a \<in> set new. engineId_att a = i \<longrightarrow> a = low_credit i"
    by blast
  have "attempts s' = attempts s @ (a # new) \<and> map engineId_att (a # new) = j # ids
      \<and> (\<forall>x \<in> set (a # new). engineId_att x = i \<longrightarrow> x = low_credit i)"
    using a new by auto
  then show ?case using c' st' st1 by metis
qed

lemma first_success_loop_low:
  assumes "first_success_loop opts b ids s = Inr s'" and "\<not> hasSufficientCredits (credits s) i"
    and "i \<notin> set (calls s)"
  shows "i \<notin> set (calls s') \<and> state (credits s') i = state (credits s) i
       \<and> (\<exists>new rest. attempts s' = attempts s @ new \<and> ids = map engineId_att new @ rest
             \<and> (\<forall>a \<in> set new. engineId_att a = i \<longrightarrow> a = low_credit i))"
  using assms
proof (induction ids arbitrary: s)
  case Nil
  then show ?case by simp
next
  case (Cons j ids)
  from Cons.prems(1) obtain w s1 where
    step: "attempt_backend opts b j s = Inr (w, s1)" and
    rest: "if w then s' = s1 else first_success_loop opts b ids s1 = Inr s'"
    by (cases "attempt_backend opts b j s") (auto split: prod.splits if_splits)
  from attempt_backend_other [OF step Cons.prems(2) Cons.prems(3)] obtain a where
    low1: "\<not> hasSufficientCredits (credits s1) i" and
    st1: "state (credits s1) i = state (credits s) i" and
    calls1: "i \<notin> set (calls s1)" and
    a: "attempts s1 = attempts s @ [a]" "engineId_att a = j" "j = i \<longrightarrow> a = low_credit i"
    by blast
  show ?case
  proof (cases w)
    case True
    with rest have "s' = s1" by simp
    moreover have "attempts s1 = attempts s @ [a] \<and> j # ids = map engineId_att [a] @ ids
        \<and> (\<forall>x \<in> set [a]. engineId_att x = i \<longrightarrow> x = low_credit i)"
      using a by simp
    ultimately show ?thesis using st1 calls1 by blast
  next
    case False
    with rest have r: "first_success_loop opts b ids s1 = Inr s'" by simp
    from Cons.IH [OF r low1 calls1] obtain new rst where
      c': "i \<notin> set (calls s')" and st': "state (credits s') i = state (credits s1) i" and
      new: "attempts s' = attempts s1 @ new" "ids = map engineId_att new @ rst"
        "\<forall>a \<in> set new. engineId_att a = i \<longrightarrow> a = low_credit i"
      by blast
    have "attempts s' = attempts s @ (a # new) \<and> j # ids = map engineId_att (a # new) @ rst
        \<and> (\<forall>x \<in> set (a # new). engineId_att x = i \<longrightarrow> x = low_credit i)"
      using a new by auto
    then show ?thesis using c' st' st1 by metis
  qed
qed


text \<open>
  C7. A back-end for which \<open>hasSufficientCredits\<close> is false when the strategy reaches it is
  skipped: the step records the attempt \<open>{success: false, reason: "low_credit"}\<close> and
  changes nothing else, so no search call is issued and nothing is charged. Over a whole
  execution, for a back-end without sufficient credits at the start: the execution
  issues no call to it, leaves its usage record as it was, and every attempt recorded for
  it is the \<open>low_credit\<close> attempt; \<open>AllProvidersStrategy\<close> records one attempt for every id
  of the input, in input order, and \<open>FirstSuccessStrategy\<close> for the ids up to the winner.
\<close>

theorem strategy_skips_low_credit:
  assumes "\<not> hasSufficientCredits m i"
  shows "(\<forall>s. credits s = m \<longrightarrow>
            attempt_backend opts b i s = Inr (False, s\<lparr>attempts := attempts s @ [low_credit i]\<rparr>))
       \<and> (\<forall>s'. AllProvidersStrategy_execute opts b ids m = Inr s' \<longrightarrow>
              i \<notin> set (calls s') \<and> state (credits s') i = state m i
            \<and> map engineId_att (attempts s') = ids
            \<and> (\<forall>a \<in> set (attempts s'). engineId_att a = i \<longrightarrow> a = low_credit i))
       \<and> (\<forall>s'. FirstSuccessStrategy_execute opts b ids m = Inr s' \<longrightarrow>
              i \<notin> set (calls s') \<and> state (credits s') i = state m i
            \<and> (\<exists>rest. ids = map engineId_att (attempts s') @ rest)
            \<and> (\<forall>a \<in> set (attempts s'). engineId_att a = i \<longrightarrow> a = low_credit i))"
proof (intro conjI allI impI)
  fix s :: Run
  assume "credits s = m"
  with assms show "attempt_backend opts b i s = Inr (False, s\<lparr>attempts := attempts s @ [low_credit i]\<rparr>)"
    by (simp add: attempt_backend_low)
next
  fix s'
  assume "AllProvidersStrategy_execute opts b ids m = Inr s'"
  then have run: "all_providers_loop opts b ids (start_run m) = Inr s'"
    by (simp add: AllProvidersStrategy_execute_def)
  have low: "\<not> hasSufficientCredits (credits (start_run m)) i" and
    nc: "i \<notin> set (calls (start_run m))"
    using assms by (simp_all add: start_run_def)
  from all_providers_loop_low [OF run low nc]
  have r: "i \<notin> set (calls s') \<and> state (credits s') i = state m i
       \<and> map engineId_att (attempts s') = ids
       \<and> (\<forall>a \<in> set (attempts s'). engineId_att a = i \<longrightarrow> a = low_credit i)"
    by (auto simp: start_run_def)
  from r show "i \<notin> set (calls s')" by simp
  from r show "state (credits s') i = state m i" by simp
  from r show "map engineId_att (attempts s') = ids" by simp
  from r show "\<forall>a \<in> set (attempts s'). engineId_att a = i \<longrightarrow> a = low_credit i" by simp
next
  fix s'
  assume "FirstSuccessStrategy_execute opts b ids m = Inr s'"
  then have run: "first_success_loop opts b ids (start_run m) = Inr s'"
    by (simp add: FirstSuccessStrategy_execute_def)
  have low: "\<not> hasSufficientCredits (credits (start_run m)) i" and
    nc: "i \<notin> set (calls (start_run m))"
    using assms by (simp_all add: start_run_def)
  from first_success_loop_low [OF run low nc]
  have r: "i \<notin> set (calls s') \<and> state (credits s') i = state m i
       \<and> (\<exists>rest. ids = map engineId_att (attempts s') @ rest)
       \<and> (\<forall>a \<in> set (attempts s'). engineId_att a = i \<longrightarrow> a = low_credit i)"
    by (auto simp: start_run_def)
  from r show "i \<notin> set (calls s')" by simp
  from r show "state (credits s') i = state m i" by simp
  from r show "\<exists>rest. ids = map engineId_att (attempts s') @ rest" by simp
  from r show "\<forall>a \<in> set (attempts s'). engineId_att a = i \<longrightarrow> a = low_credit i" by simp
qed

lemma ex_pair_all_run:
  "\<exists>s'. AllProvidersStrategy_execute ex_opts ex_up [''tavily'', ''brave''] ex_pair = Inr s'
     \<and> calls s' = [''brave'']
     \<and> attempts s' = [low_credit ''tavily'',
          \<lparr>engineId_att = ''brave'', success = True, reason = None\<rparr>]
     \<and> state (credits s') ''brave'' = Some \<lparr>used = 1, lastReset = ''2024-01-15T10:30:00.000Z''\<rparr>"
proof -
  from ex_pair_charge obtain m' where
    m': "chargeAndSave ex_pair ''brave'' = Inr (True, m')"
      "state m' ''brave'' = Some \<lparr>used = 1, lastReset = ''2024-01-15T10:30:00.000Z''\<rparr>"
    by blast
  have 1: "attempt_backend ex_opts ex_up ''tavily'' (start_run ex_pair) =
      Inr (False, (start_run ex_pair)\<lparr>attempts := [low_credit ''tavily'']\<rparr>)"
    using ex_pair_low by (simp add: attempt_backend_def start_run_def)
  have 2: "attempt_backend ex_opts ex_up ''brave'' ((start_run ex_pair)\<lparr>attempts := [low_credit ''tavily'']\<rparr>) =
      Inr (True, (start_run ex_pair)\<lparr>calls := [''brave''], credits := m',
         attempts := [low_credit ''tavily'', \<lparr>engineId_att = ''brave'', success = True, reason = None\<rparr>],
         results := [\<lparr>title = ''Test Result'', url = ''https://test.com'', snippet = ''Test snippet'',
           sourceEngine = ''brave''\<rparr>]\<rparr>)"
    using ex_pair_ok m'(1)
    by (simp add: attempt_backend_def start_run_def ex_up_first_try) (simp add: ex_up_def)
  show ?thesis
    using m'(2) by (simp add: AllProvidersStrategy_execute_def 1 2)
qed

lemma ex_pair_first_run:
  "\<exists>s'. FirstSuccessStrategy_execute ex_opts ex_up [''tavily'', ''brave''] ex_pair = Inr s'
     \<and> calls s' = [''brave'']
     \<and> attempts s' = [low_credit ''tavily'',
          \<lparr>engineId_att = ''brave'', success = True, reason = None\<rparr>]
     \<and> state (credits s') ''brave'' = Some \<lparr>used = 1, lastReset = ''2024-01-15T10:30:00.000Z''\<rparr>"
proof -
  from ex_pair_charge obtain m' where
    m': "chargeAndSave ex_pair ''brave'' = Inr (True, m')"
      "state m' ''brave'' = Some \<lparr>used = 1, lastReset = ''2024-01-15T10:30:00.000Z''\<rparr>"
    by blast
  have 1: "attempt_backend ex_opts ex_up ''tavily'' (start_run ex_pair) =
      Inr (False, (start_run ex_pair)\<lparr>attempts := [low_credit ''tavily'']\<rparr>)"
    using ex_pair_low by (simp add: attempt_backend_def start_run_def)
  have 2: "attempt_backend ex_opts ex_up ''brave'' ((start_run ex_pair)\<lparr>attempts := [low_credit ''tavily'']\<rparr>) =
      Inr (True, (start_run ex_pair)\<lparr>calls := [''brave''], credits := m',
         attempts := [low_credit ''tavily'', \<lparr>engineId_att = ''brave'', success = True, reason = None\<rparr>],
         results := [\<lparr>title = ''Test Result'', url = ''https://test.com'', snippet = ''Test snippet'',
           sourceEngine = ''brave''\<rparr>]\<rparr>)"
    using ex_pair_ok m'(1)
    by (simp add: attempt_backend_def start_run_def ex_up_first_try) (simp add: ex_up_def)
  show ?thesis
    using m'(2) by (simp add: FirstSuccessStrategy_execute_def 1 2)
qed

theorem strategy_skips_low_credit_witness:
  "\<not> hasSufficientCredits ex_pair ''tavily''
   \<and> (\<exists>s'. AllProvidersStrategy_execute ex_opts ex_up [''tavily'', ''brave''] ex_pair = Inr s'
        \<and> calls s' = [''brave'']
        \<and> state (credits s') ''tavily'' = state ex_pair ''tavily''
        \<and> attempts s' = [low_credit ''tavily'',
             \<lparr>engineId_att = ''brave'', success = True, reason = None\<rparr>])
   \<and> (\<exists>s'. FirstSuccessStrategy_execute ex_opts ex_up [''tavily'', ''brave''] ex_pair = Inr s'
        \<and> calls s' = [''brave'']
        \<and> state (credits s') ''tavily'' = state ex_pair ''tavily''
        \<and> attempts s' = [low_credit ''tavily'',
             \<lparr>engineId_att = ''brave'', success = True, reason = None\<rparr>])"
proof -
  note T = strategy_skips_low_credit [OF ex_pair_low, of ex_opts ex_up "[''tavily'', ''brave'']"]
  from T have A: "\<forall>s'. AllProvidersStrategy_execute ex_opts ex_up [''tavily'', ''brave''] ex_pair = Inr s' \<longrightarrow>
       state (credits s') ''tavily'' = state ex_pair ''tavily''"
    by blast
  from T have F: "\<forall>s'. FirstSuccessStrategy_execute ex_opts ex_up [''tavily'', ''brave''] ex_pair = Inr s' \<longrightarrow>
       state (credits s') ''tavily'' = state ex_pair ''tavily''"
    by blast
  from ex_pair_all_run obtain sa where
    sa: "AllProvidersStrategy_execute ex_opts ex_up [''tavily'', ''brave''] ex_pair = Inr sa"
      "calls sa = [''brave'']"
      "attempts sa = [low_credit ''tavily'', \<lparr>engineId_att = ''brave'', success = True, reason = None\<rparr>]"
    by blast
  from ex_pair_first_run obtain sf where
    sf: "FirstSuccessStrategy_execute ex_opts ex_up [''tavily'', ''brave''] ex_pair = Inr sf"
      "calls sf = [''brave'']"
      "attempts sf = [low_credit ''tavily'', \<lparr>engineId_att = ''brave'', success = True, reason = None\<rparr>]"
    by blast
  from A sa(1) have a: "state (credits sa) ''tavily'' = state ex_pair ''tavily''" by blast
  from F sf(1) have f: "state (credits sf) ''tavily'' = state ex_pair ''tavily''" by blast
  from ex_pair_low sa sf a f show ?thesis by simp
qed

section \<open>A first-success run in which every back-end fails\<close>

lemma call_with_retry_all_fail:
  "\<forall>k. failure_of (b i k) \<noteq> None \<Longrightarrow> \<exists>r c. call_with_retry b i k n = (Inl r, c)"
proof (induction n arbitrary: k)
  case 0
  then obtain r where "failure_of (b i k) = Some r" by blast
  then show ?case by simp
next
  case (Suc n)
  from Suc.prems obtain r where r: "failure_of (b i k) = Some r" by blast
  have "\<exists>r c. call_with_retry b i (Suc k) n = (Inl r, c)"
    using Suc.prems by (rule Suc.IH)
  then obtain r' c where "call_with_retry b i (Suc k) n = (Inl r', c)" by blast
  with r show ?case by simp
qed

lemma attempt_backend_fail:
  assumes "hasSufficientCredits (credits s) i \<longrightarrow> (\<forall>k. failure_of (b i k) \<noteq> None)"
  shows "\<exists>c a. attempt_backend opts b i s =
             Inr (False, s\<lparr>calls := calls s @ replicate c i, attempts := attempts s @ [a]\<rparr>)
           \<and> engineId_att a = i \<and> \<not> success a \<and> reason a \<noteq> None"
proof (cases "hasSufficientCredits (credits s) i")
  case False
  then have "attempt_backend opts b i s =
      Inr (False, s\<lparr>calls := calls s @ replicate 0 i, attempts := attempts s @ [low_credit i]\<rparr>)"
    by (simp add: attempt_backend_low)
  moreover have "engineId_att (low_credit i) = i \<and> \<not> success (low_credit i)
      \<and> reason (low_credit i) \<noteq> None"
    by (simp add: low_credit_def)
  ultimately show ?thesis by blast
next
  case True
  with assms have "\<forall>k. failure_of (b i k) \<noteq> None" by simp
  then have "\<exists>r c. call_with_retry b i (count_list (calls s) i) (retry_attempts opts) = (Inl r, c)"
    by (rule call_with_retry_all_fail)
  then obtain r c where
    cr: "call_with_retry b i (count_list (calls s) i) (retry_attempts opts) = (Inl r, c)"
    by blast
  let ?a = "\<lparr>engineId_att = i, success = False, reason = Some r\<rparr>"
  from True cr have "attempt_backend opts b i s =
      Inr (False, s\<lparr>calls := calls s @ replicate c i, attempts := attempts s @ [?a]\<rparr>)"
    by (simp add: attempt_backend_def)
  moreover have "engineId_att ?a = i \<and> \<not> success ?a \<and> reason ?a \<noteq> None" by simp
  ultimately show ?thesis by blast
qed

lemma first_success_loop_all_fail:
  assumes "\<forall>i \<in> set ids. hasSufficientCredits (credits s) i \<longrightarrow> (\<forall>k. failure_of (b i k) \<noteq> None)"
  shows "\<exists>s'. first_success_loop opts b ids s = Inr s'
           \<and> results s' = results s \<and> credits s' = credits s
           \<and> (\<exists>new. attempts s' = attempts s @ new \<and> map engineId_att new = ids
                 \<and> (\<forall>a \<in> set new. \<not> success a \<and> reason a \<noteq> None))"
  using assms
proof (induction ids arbitrary: s)
  case Nil
  then show ?case by simp
next
  case (Cons j ids)
  from Cons.prems have "hasSufficientCredits (credits s) j \<longrightarrow> (\<forall>k. failure_of (b j k) \<noteq> None)"
    by simp
  then have "\<exists>c a. attempt_backend opts b j s =
             Inr (False, s\<lparr>calls := calls s @ replicate c j, attempts := attempts s @ [a]\<rparr>)
           \<and> engineId_att a = j \<and> \<not> success a \<and> reason a \<noteq> None"
    by (rule attempt_backend_fail)
  then obtain c a where
    step: "attempt_backend opts b j s =
             Inr (False, s\<lparr>calls := calls s @ replicate c j, attempts := attempts s @ [a]\<rparr>)" and
    a: "engineId_att a = j" "\<not> success a" "reason a \<noteq> None"
    by blast
  let ?s1 = "s\<lparr>calls := calls s @ replicate c j, attempts := attempts s @ [a]\<rparr>"
  from Cons.prems have
    "\<forall>i \<in> set ids. hasSufficientCredits (credits ?s1) i \<longrightarrow> (\<forall>k. failure_of (b i k) \<noteq> None)"
    by simp
  then have "\<exists>s'. first_success_loop opts b ids ?s1 = Inr s'
           \<and> results s' = results ?s1 \<and> credits s' = credits ?s1
           \<and> (\<exists>new. attempts s' = attempts ?s1 @ new \<and> map engineId_att new = ids
                 \<and> (\<forall>a \<in> set new. \<not> success a \<and> reason a \<noteq> None))"
    by (rule Cons.IH)
  then obtain s' new where
    run: "first_success_loop opts b ids ?s1 = Inr s'" and
    keep: "results s' = results ?s1" "credits s' = credits ?s1" and
    new: "attempts s' = attempts ?s1 @ new" "map engineId_att new = ids"
      "\<forall>a \<in> set new. \<not> success a \<and> reason a \<noteq> None"
    by blast
  have r: "first_success_loop opts b (j # ids) s = Inr s'"
    using step run by simp
  have k: "results s' = results s" "credits s' = credits s"
    using keep by simp_all
  have n: "attempts s' = attempts s @ (a # new) \<and> map engineId_att (a # new) = j # ids
      \<and> (\<forall>x \<in> set (a # new). \<not> success x \<and> reason x \<noteq> None)"
    using a new by simp
  from n have "\<exists>new. attempts s' = attempts s @ new \<and> map engineId_att new = j # ids
      \<and> (\<forall>x \<in> set new. \<not> success x \<and> reason x \<noteq> None)"
    by (rule exI)
  with r k show ?case by simp
qed

text \<open>
  C8. When every back-end of the input fails (it has no sufficient credits, or every
  call to it fails or returns no item), \<open>FirstSuccessStrategy\<close> returns normally: the
  result has no items, the attempts are one per back-end of the input, in input order,
  each with \<open>success\<close> false and a reason, and the ledger is unchanged.
\<close>

theorem first_success_all_fail_returns_empty:
  assumes "\<forall>i \<in> set ids. hasSufficientCredits m i \<longrightarrow> (\<forall>k. failure_of (b i k) \<noteq> None)"
  shows "\<exists>s'. FirstSuccessStrategy_execute opts b ids m = Inr s'
           \<and> results s' = []
           \<and> map engineId_att (attempts s') = ids
           \<and> (\<forall>a \<in> set (attempts s'). \<not> success a \<and> reason a \<noteq> None)
           \<and> credits s' = m"
proof -
  from assms have
    "\<forall>i \<in> set ids. hasSufficientCredits (credits (start_run m)) i \<longrightarrow>
       (\<forall>k. failure_of (b i k) \<noteq> None)"
    by (simp add: start_run_def)
  then have "\<exists>s'. first_success_loop opts b ids (start_run m) = Inr s'
           \<and> results s' = results (start_run m) \<and> credits s' = credits (start_run m)
           \<and> (\<exists>new. attempts s' = attempts (start_run m) @ new \<and> map engineId_att new = ids
                 \<and> (\<forall>a \<in> set new. \<not> success a \<and> reason a \<noteq> None))"
    by (rule first_success_loop_all_fail)
  then obtain s' new where
    run: "first_success_loop opts b ids (start_run m) = Inr s'" and
    keep: "results s' = results (start_run m)" "credits s' = credits (start_run m)" and
    new: "attempts s' = attempts (start_run m) @ new" "map engineId_att new = ids"
      "\<forall>a \<in> set new. \<not> success a \<and> reason a \<noteq> None"
    by blast
  have "FirstSuccessStrategy_execute opts b ids m = Inr s'"
    using run by (simp add: FirstSuccessStrategy_execute_def)
  moreover have "results s' = []" "credits s' = m" "attempts s' = new"
    using keep new(1) by (simp_all add: start_run_def)
  ultimately show ?thesis using new(2,3) by simp
qed

lemma ex_down_fails: "\<forall>k. failure_of (ex_down i k) \<noteq> None"
  by (simp add: ex_down_def failure_of_def)

lemma ex_down_every_try:
  "call_with_retry ex_down i k n = (Inl ''network_error'', Suc n)"
  by (induction n arbitrary: k) (simp_all add: ex_down_def failure_of_def)

lemma ex_pair_down_run:
  "FirstSuccessStrategy_execute ex_opts ex_down [''tavily'', ''brave''] ex_pair =
     Inr ((start_run ex_pair)
       \<lparr>calls := [''brave'', ''brave'', ''brave''],
        attempts := [low_credit ''tavily'',
          \<lparr>engineId_att = ''brave'', success = False, reason = Some ''network_error''\<rparr>]\<rparr>)"
proof -
  have 1: "attempt_backend ex_opts ex_down ''tavily'' (start_run ex_pair) =
      Inr (False, (start_run ex_pair)\<lparr>attempts := [low_credit ''tavily'']\<rparr>)"
    using ex_pair_low by (simp add: attempt_backend_def start_run_def)
  have 2: "attempt_backend ex_opts ex_down ''brave''
        ((start_run ex_pair)\<lparr>attempts := [low_credit ''tavily'']\<rparr>) =
      Inr (False, (start_run ex_pair)
       \<lparr>calls := [''brave'', ''brave'', ''brave''],
        attempts := [low_credit ''tavily'',
          \<lparr>engineId_att = ''brave'', success = False, reason = Some ''network_error''\<rparr>]\<rparr>)"
    using ex_pair_ok
    by (simp add: attempt_backend_def start_run_def ex_down_every_try ex_opts_def)
      (simp add: numeral_3_eq_3)
  show ?thesis
    by (simp add: FirstSuccessStrategy_execute_def 1 2)
qed

theorem first_success_all_fail_returns_empty_witness:
  "\<exists>s'. FirstSuccessStrategy_execute ex_opts ex_down [''tavily'', ''brave''] ex_pair = Inr s'
      \<and> results s' = []
      \<and> map engineId_att (attempts s') = [''tavily'', ''brave'']
      \<and> attempts s' = [low_credit ''tavily'',
           \<lparr>engineId_att = ''brave'', success = False, reason = Some ''network_error''\<rparr>]
      \<and> calls s' = [''brave'', ''brave'', ''brave'']
      \<and> credits s' = ex_pair"
proof -
  have h: "\<forall>i \<in> set [''tavily'', ''brave''].
       hasSufficientCredits ex_pair i \<longrightarrow> (\<forall>k. failure_of (ex_down i k) \<noteq> None)"
    using ex_down_fails by blast
  have E: "\<exists>s'. FirstSuccessStrategy_execute ex_opts ex_down [''tavily'', ''brave''] ex_pair = Inr s'
           \<and> results s' = []
           \<and> map engineId_att (attempts s') = [''tavily'', ''brave'']
           \<and> (\<forall>a \<in> set (attempts s'). \<not> success a \<and> reason a \<noteq> None)
           \<and> credits s' = ex_pair"
    using h by (rule first_success_all_fail_returns_empty)
  from E show ?thesis
    unfolding ex_pair_down_run by (simp add: start_run_def)
qed

end
